theory Spec2Isabelle
  imports Main
begin

section \<open>Strings, slices and printing\<close>

text \<open>
  The program is \<^verbatim>\<open>regex_search.py\<close>. A Python \<^verbatim>\<open>str\<close> is modelled as a \<^typ>\<open>string\<close>, one
  \<^typ>\<open>char\<close> per code point (so the model covers the code points below 256), and offsets
  into a line are natural numbers, as the offsets of a match object are.
\<close>

definition newline :: char where
  "newline = CHR 0x0A"

definition ESC :: char where
  "ESC = CHR 0x1B"

text \<open>\<^verbatim>\<open>s[a:b]\<close> and \<^verbatim>\<open>s[a:]\<close> for offsets that are not negative: an empty slice when
  \<^verbatim>\<open>b <= a\<close> or when \<^verbatim>\<open>a\<close> is beyond the end, never an error.\<close>

definition slice :: "string \<Rightarrow> nat \<Rightarrow> nat \<Rightarrow> string" where
  "slice s a b = take (b - a) (drop a s)"

definition slice_from :: "string \<Rightarrow> nat \<Rightarrow> string" where
  "slice_from s a = drop a s"

text \<open>\<^verbatim>\<open>str(n)\<close> as an f-string renders a non-negative integer: decimal, no leading zero.\<close>

definition digit_char :: "nat \<Rightarrow> char" where
  "digit_char d = char_of (48 + d)"

fun str_nat :: "nat \<Rightarrow> string" where
  "str_nat n = (if n < 10 then [digit_char n] else str_nat (n div 10) @ [digit_char (n mod 10)])"

declare str_nat.simps [simp del]

section \<open>Match objects and the regular-expression engine\<close>

text \<open>
  A match object of \<^verbatim>\<open>re\<close> keeps the string it was found in and its span;
  \<^verbatim>\<open>match.start()\<close>, \<^verbatim>\<open>match.end()\<close> and \<^verbatim>\<open>match.group()\<close> read them.
\<close>

record rmatch =
  m_string :: string
  m_start :: nat
  m_end :: nat

definition m_group :: "rmatch \<Rightarrow> string" where
  "m_group m = slice (m_string m) (m_start m) (m_end m)"

text \<open>
  \<^verbatim>\<open>re.compile\<close> and \<^verbatim>\<open>finditer\<close> belong to Python's standard library, not to the
  repository. A compiled pattern is taken as a parameter: the function that, for a string and
  an offset, lists the end offsets of the pattern's matches anchored at that offset, in the
  order in which the backtracking matcher tries them. The scan built on it follows CPython
  (3.7 and later): \<^verbatim>\<open>sre_search\<close> tries the cursor position first, then every later
  position, and the scanner behind \<^verbatim>\<open>finditer\<close> moves the cursor to the end of the match it
  found and sets \<^verbatim>\<open>must_advance\<close> when that match was empty, which makes the next attempt
  at the cursor reject an empty match there (the library's documentation: empty matches are
  included in the result, and a non-empty match can start just after a previous empty match).
\<close>

type_synonym pattern = "string \<Rightarrow> nat \<Rightarrow> nat list"

text \<open>The contract of a compiled pattern on one string: a match anchored at \<open>i\<close> ends at or
  after \<open>i\<close> and within the string.\<close>

definition pattern_ok :: "pattern \<Rightarrow> string \<Rightarrow> bool" where
  "pattern_ok p s = list_all (\<lambda>i. list_all (\<lambda>e. i \<le> e \<and> e \<le> length s) (p s i)) [0..<Suc (length s)]"

text \<open>
  \<^verbatim>\<open>sre_search\<close> with the cursor at \<open>start\<close>: the attempt anchored at the cursor takes the
  first end that \<^verbatim>\<open>must_advance\<close> does not forbid (the matcher backtracks from an empty match at
  the cursor when the flag is set); when there is none, \<open>search_loop\<close> tries the positions
  after \<open>ptr\<close> one by one, up to the end of the string, where any first end is taken.
\<close>

function search_loop :: "pattern \<Rightarrow> string \<Rightarrow> nat \<Rightarrow> (nat \<times> nat) option" where
  "search_loop p s ptr =
     (if ptr < length s
      then (case p s (Suc ptr) of
              e # _ \<Rightarrow> Some (Suc ptr, e)
            | [] \<Rightarrow> search_loop p s (Suc ptr))
      else None)"
  by pat_completeness auto
termination
  by (relation "measure (\<lambda>(p, s, ptr). length s - ptr)") auto

definition sre_search :: "pattern \<Rightarrow> string \<Rightarrow> nat \<Rightarrow> bool \<Rightarrow> (nat \<times> nat) option" where
  "sre_search p s start must_advance =
     (case filter (\<lambda>e. \<not> (must_advance \<and> e = start)) (p s start) of
        e # _ \<Rightarrow> Some (start, e)
      | [] \<Rightarrow> search_loop p s start)"

text \<open>
  The scanner that \<^verbatim>\<open>finditer\<close> iterates: search from the cursor, stop when nothing is found,
  otherwise emit the match, move the cursor to its end and set \<^verbatim>\<open>must_advance\<close> when the match
  is empty. The result is \<open>None\<close> when the iteration does not end.
\<close>

partial_function (option) scanner :: "pattern \<Rightarrow> string \<Rightarrow> nat \<Rightarrow> bool \<Rightarrow> rmatch list option" where
  "scanner p s start must_advance =
     (case sre_search p s start must_advance of
        None \<Rightarrow> Some []
      | Some be \<Rightarrow>
          Option.bind (scanner p s (snd be) (fst be = snd be))
            (\<lambda>ms. Some (\<lparr>m_string = s, m_start = fst be, m_end = snd be\<rparr> # ms)))"

declare scanner.simps [code]

definition finditer :: "pattern \<Rightarrow> string \<Rightarrow> rmatch list option" where
  "finditer p s = scanner p s 0 False"

subsection \<open>A fragment of the pattern language\<close>

text \<open>
  Concrete patterns for the scenarios: literals, \<^verbatim>\<open>\d\<close>, the empty pattern, concatenation,
  alternation (left alternative first) and the greedy star and plus. The star follows the
  matcher's \<^verbatim>\<open>MAX_UNTIL\<close>: after an iteration of the body that consumed something it tries
  the body again; after an iteration that consumed nothing it goes on to what follows the
  star, without another iteration; when no further iteration leads to a match it goes on
  from where it stands. \<open>star_ends f n i\<close> takes a bound \<open>n\<close> on the nesting of
  iterations; every nested iteration starts at a later offset, so from the offset \<open>i\<close> of a
  string \<open>s\<close> the bound \<open>Suc (length s - i)\<close> is never used up.
\<close>

datatype regex =
  Lit char
  | Digit
  | Eps
  | Seq regex regex
  | Alt regex regex
  | Star regex

primrec star_ends :: "(nat \<Rightarrow> nat list) \<Rightarrow> nat \<Rightarrow> nat \<Rightarrow> nat list" where
  "star_ends f 0 i = [i]"
| "star_ends f (Suc n) i = concat (map (\<lambda>e. if i < e then star_ends f n e else [e]) (f i)) @ [i]"

primrec ends :: "regex \<Rightarrow> string \<Rightarrow> nat \<Rightarrow> nat list" where
  "ends (Lit c) s i = (if i < length s \<and> s ! i = c then [Suc i] else [])"
| "ends Digit s i = (if i < length s \<and> s ! i \<in> set ''0123456789'' then [Suc i] else [])"
| "ends Eps s i = [i]"
| "ends (Seq r1 r2) s i = concat (map (\<lambda>e. ends r2 s e) (ends r1 s i))"
| "ends (Alt r1 r2) s i = ends r1 s i @ ends r2 s i"
| "ends (Star r) s i = star_ends (\<lambda>j. ends r s j) (Suc (length s - i)) i"

definition Plus :: "regex \<Rightarrow> regex" where
  "Plus r = Seq r (Star r)"

definition rx :: "regex \<Rightarrow> pattern" where
  "rx r = (\<lambda>s i. ends r s i)"

section \<open>The output sinks\<close>

text \<open>
  What the program writes: the text printed on standard output, and the content of
  \<^verbatim>\<open>json_output_file.json\<close>, which the machine formatter opens in append mode (an absent
  file is the empty content; the file is assumed writable and is not one of the scanned
  sources). \<open>opened\<close> records the names of the input files opened so far; the program does
  not keep it, it is there to state which sources a run touched.
\<close>

record world =
  stdout :: string
  json_output_file :: string
  opened :: "string list"

text \<open>\<^verbatim>\<open>print(s)\<close> and \<^verbatim>\<open>print(s, end="")\<close>.\<close>

definition print :: "string \<Rightarrow> world \<Rightarrow> world" where
  "print s w = w\<lparr>stdout := stdout w @ s @ [newline]\<rparr>"

definition print_end :: "string \<Rightarrow> world \<Rightarrow> world" where
  "print_end s w = w\<lparr>stdout := stdout w @ s\<rparr>"

section \<open>The formatters\<close>

text \<open>\<^verbatim>\<open>DefaultFormatter.format\<close>: one \<^verbatim>\<open>print\<close> for each match.\<close>

fun DefaultFormatter_format :: "string \<Rightarrow> string \<Rightarrow> nat \<Rightarrow> rmatch list \<Rightarrow> world \<Rightarrow> world" where
  "DefaultFormatter_format file_name line line_no [] w = w"
| "DefaultFormatter_format file_name line line_no (m # matches) w =
     DefaultFormatter_format file_name line line_no matches
       (print (''file name: '' @ file_name @ '', line: '' @ str_nat line_no
                @ '', matched_text: '' @ m_group m) w)"

text \<open>
  \<^verbatim>\<open>UnderscoreFormatter.format\<close>. The loop carries \<^verbatim>\<open>last_index\<close> and \<^verbatim>\<open>output\<close>.
  \<^verbatim>\<open>" " * k\<close> is the empty string for a negative \<^verbatim>\<open>k\<close>, which is what \<^const>\<open>replicate\<close> gives
  with the truncating subtraction of \<^typ>\<open>nat\<close>.
\<close>

fun underscore_loop :: "rmatch list \<Rightarrow> nat \<Rightarrow> string \<Rightarrow> nat \<times> string" where
  "underscore_loop [] last_index output = (last_index, output)"
| "underscore_loop (m # matches) last_index output =
     underscore_loop matches (m_end m)
       (output @ replicate (m_start m - last_index) CHR '' ''
               @ replicate (m_end m - m_start m) CHR ''^'')"

definition UnderscoreFormatter_format ::
  "string \<Rightarrow> string \<Rightarrow> nat \<Rightarrow> rmatch list \<Rightarrow> world \<Rightarrow> world" where
  "UnderscoreFormatter_format file_name line line_no matches w =
     print (snd (underscore_loop matches 0 [])) (print line w)"

text \<open>\<^verbatim>\<open>ColorFormatter.format\<close>: the escape \<^verbatim>\<open>\033[91m\<close>, the reset \<^verbatim>\<open>\033[00m\<close>.\<close>

definition color_on :: string where
  "color_on = ESC # ''[91m''"

definition color_off :: string where
  "color_off = ESC # ''[00m''"

fun color_loop :: "string \<Rightarrow> rmatch list \<Rightarrow> nat \<Rightarrow> string \<Rightarrow> nat \<times> string" where
  "color_loop line [] last_index output = (last_index, output)"
| "color_loop line (m # matches) last_index output =
     color_loop line matches (m_end m)
       (output @ slice line last_index (m_start m)
               @ color_on @ slice line (m_start m) (m_end m) @ color_off)"

definition ColorFormatter_format ::
  "string \<Rightarrow> string \<Rightarrow> nat \<Rightarrow> rmatch list \<Rightarrow> world \<Rightarrow> world" where
  "ColorFormatter_format file_name line line_no matches w =
     (let r = color_loop line matches 0 []
      in print (slice_from line (fst r)) (print_end (snd r) w))"

text \<open>
  \<^verbatim>\<open>MachineFormatter.format\<close>: the list \<^verbatim>\<open>data\<close> of record strings, then
  \<^verbatim>\<open>json.dump(data, file, indent=4)\<close> on the file opened for appending. The JSON text of a
  list of strings: \<^verbatim>\<open>[]\<close> for the empty list, otherwise one item on each line, indented by
  four spaces; a string is quoted, with the escapes of \<^verbatim>\<open>ensure_ascii\<close>.
\<close>

fun machine_loop :: "string \<Rightarrow> nat \<Rightarrow> rmatch list \<Rightarrow> string list \<Rightarrow> string list" where
  "machine_loop file_name line_no [] data = data"
| "machine_loop file_name line_no (m # matches) data =
     machine_loop file_name line_no matches
       (data @ [file_name @ '':'' @ str_nat line_no @ '':'' @ str_nat (m_start m)
                 @ '':'' @ m_group m])"

definition hex_digit :: "nat \<Rightarrow> char" where
  "hex_digit d = (if d < 10 then char_of (48 + d) else char_of (87 + d))"

definition json_escape :: "char \<Rightarrow> string" where
  "json_escape c =
     (if c = CHR 0x22 then [CHR 0x5C, CHR 0x22]
      else if c = CHR 0x5C then [CHR 0x5C, CHR 0x5C]
      else if c = CHR 0x0A then [CHR 0x5C, CHR ''n'']
      else if c = CHR 0x0D then [CHR 0x5C, CHR ''r'']
      else if c = CHR 0x09 then [CHR 0x5C, CHR ''t'']
      else if c = CHR 0x08 then [CHR 0x5C, CHR ''b'']
      else if c = CHR 0x0C then [CHR 0x5C, CHR ''f'']
      else if 32 \<le> (of_char c :: nat) \<and> (of_char c :: nat) \<le> 126 then [c]
      else [CHR 0x5C, CHR ''u'', CHR ''0'', CHR ''0'',
            hex_digit (of_char c div 16), hex_digit (of_char c mod 16)])"

definition json_string :: "string \<Rightarrow> string" where
  "json_string s = [CHR 0x22] @ concat (map json_escape s) @ [CHR 0x22]"

fun json_items :: "string list \<Rightarrow> string" where
  "json_items [] = []"
| "json_items [x] = json_string x"
| "json_items (x # y # ys) = json_string x @ '','' @ [newline] @ ''    '' @ json_items (y # ys)"

definition json_dump :: "string list \<Rightarrow> string" where
  "json_dump data =
     (if data = [] then ''[]''
      else ''['' @ [newline] @ ''    '' @ json_items data @ [newline] @ '']'')"

definition MachineFormatter_format ::
  "string \<Rightarrow> string \<Rightarrow> nat \<Rightarrow> rmatch list \<Rightarrow> world \<Rightarrow> world" where
  "MachineFormatter_format file_name line line_no matches w =
     w\<lparr>json_output_file :=
          json_output_file w @ json_dump (machine_loop file_name line_no matches [])\<rparr>"

section \<open>The finder\<close>

text \<open>
  The values returned by \<^verbatim>\<open>get_command_line_parameters\<close>; \<^verbatim>\<open>files\<close> is \<^verbatim>\<open>None\<close> when
  \<^verbatim>\<open>-f\<close> is absent. The parser admits at most one of the three flags.
\<close>

record args =
  regular_expression :: string
  files :: "string list option"
  underscore :: bool
  color :: bool
  machine :: bool

text \<open>
  The surroundings of a run: the outcome of \<^verbatim>\<open>re.compile\<close> on an expression (\<open>None\<close> when
  it raises \<^verbatim>\<open>re.error\<close>), the outcome of \<^verbatim>\<open>open(file_name, "r")\<close> (the lines of the file,
  each with its line terminator, or \<^verbatim>\<open>FileNotFoundError\<close>), and the lines of standard input.
  \<^verbatim>\<open>FileNotFoundError\<close> is the one exception of \<^verbatim>\<open>open\<close> that the program catches; the
  others are not part of the model.
\<close>

datatype open_result = FileNotFoundError | Opened "string list"

record env =
  re_compile :: "string \<Rightarrow> pattern option"
  open_file :: "string \<Rightarrow> open_result"
  stdin_readlines :: "string list"

text \<open>
  \<^verbatim>\<open>exit()\<close> raises \<^verbatim>\<open>SystemExit\<close> with the code it is given, \<^verbatim>\<open>None\<close> when it is called
  without an argument. A run ends with \<open>Inl\<close> when \<^verbatim>\<open>SystemExit\<close> was raised and with
  \<open>Inr\<close> when \<^verbatim>\<open>main\<close> returned; the interpreter turns both into the exit status of the
  process: the code, and 0 for the code \<^verbatim>\<open>None\<close> and for a normal return.
\<close>

datatype py_exit = SystemExit "nat option"

type_synonym outcome = "(py_exit \<times> world) + world"

fun exit_status :: "outcome \<Rightarrow> nat" where
  "exit_status (Inl (SystemExit None, w)) = 0"
| "exit_status (Inl (SystemExit (Some n), w)) = n"
| "exit_status (Inr w) = 0"

definition output_formatted_data ::
  "args \<Rightarrow> string \<Rightarrow> string \<Rightarrow> nat \<Rightarrow> rmatch list \<Rightarrow> world \<Rightarrow> world" where
  "output_formatted_data a file_name line line_no matches w =
     (if underscore a then UnderscoreFormatter_format file_name line line_no matches w
      else if color a then ColorFormatter_format file_name line line_no matches w
      else if machine a then MachineFormatter_format file_name line line_no matches w
      else DefaultFormatter_format file_name line line_no matches w)"

text \<open>
  \<^verbatim>\<open>search_matches\<close>: the lines are numbered from 1, every newline character is removed
  from a line, and the matches of the line go to the selected formatter. The result is
  \<open>None\<close> when a scan does not return.
\<close>

fun search_matches_from ::
  "pattern \<Rightarrow> args \<Rightarrow> string list \<Rightarrow> string \<Rightarrow> nat \<Rightarrow> world \<Rightarrow> world option" where
  "search_matches_from p a [] file_name line_no w = Some w"
| "search_matches_from p a (raw # rest) file_name line_no w =
     (let line = filter (\<lambda>c. c \<noteq> newline) raw
      in case finditer p line of
           None \<Rightarrow> None
         | Some matches \<Rightarrow>
             search_matches_from p a rest file_name (Suc line_no)
               (output_formatted_data a file_name line line_no matches w))"

definition search_matches :: "pattern \<Rightarrow> args \<Rightarrow> string list \<Rightarrow> string \<Rightarrow> world \<Rightarrow> world option" where
  "search_matches p a file file_name w = search_matches_from p a file file_name 1 w"

text \<open>\<^verbatim>\<open>get_content\<close>: the loop over the named files, or standard input.\<close>

fun get_content_files ::
  "env \<Rightarrow> pattern \<Rightarrow> args \<Rightarrow> string list \<Rightarrow> world \<Rightarrow> outcome option" where
  "get_content_files E p a [] w = Some (Inr w)"
| "get_content_files E p a (file_name # rest) w =
     (case open_file E file_name of
        FileNotFoundError \<Rightarrow>
          Some (Inl (SystemExit None, print (''File not found error: '' @ file_name) w))
      | Opened file \<Rightarrow>
          (case search_matches p a file file_name (w\<lparr>opened := opened w @ [file_name]\<rparr>) of
             None \<Rightarrow> None
           | Some w' \<Rightarrow> get_content_files E p a rest w'))"

definition stdin_prompt :: string where
  "stdin_prompt = ''Enter text to searches for lines matching regular expression''
     @ ''(Press CTRL+D (Unix) or CTRL+Z (Windows) to exit): ''"

definition get_content :: "env \<Rightarrow> pattern \<Rightarrow> args \<Rightarrow> world \<Rightarrow> outcome option" where
  "get_content E p a w =
     (case files a of
        Some names \<Rightarrow> get_content_files E p a names w
      | None \<Rightarrow>
          (case search_matches p a (stdin_readlines E) ''STDIN'' (print stdin_prompt w) of
             None \<Rightarrow> None
           | Some w' \<Rightarrow> Some (Inr w')))"

text \<open>\<^verbatim>\<open>RegularExpressionFinder.__init__\<close>, which is all that \<^verbatim>\<open>main\<close> runs.\<close>

definition RegularExpressionFinder_init :: "env \<Rightarrow> args \<Rightarrow> world \<Rightarrow> outcome option" where
  "RegularExpressionFinder_init E a w =
     (case re_compile E (regular_expression a) of
        None \<Rightarrow> Some (Inl (SystemExit None, print ''Invalid regular expression'' w))
      | Some p \<Rightarrow> get_content E p a w)"

definition main :: "env \<Rightarrow> args \<Rightarrow> world \<Rightarrow> outcome option" where
  "main E a w = RegularExpressionFinder_init E a w"

section \<open>Properties of a match sequence\<close>

text \<open>
  \<open>cursor_steps s start must_advance ms\<close>: the matches \<open>ms\<close> are steps of a scan of \<open>s\<close> whose
  cursor is at \<open>start\<close>. A match lies in \<open>s\<close> at or after the cursor, ends beyond the cursor when
  \<open>must_advance\<close> is set, and leaves the cursor at its end with \<open>must_advance\<close> set exactly when
  it is empty.
\<close>

fun cursor_steps :: "string \<Rightarrow> nat \<Rightarrow> bool \<Rightarrow> rmatch list \<Rightarrow> bool" where
  "cursor_steps s start must_advance [] = True"
| "cursor_steps s start must_advance (m # ms) =
     (m_string m = s \<and> start \<le> m_start m \<and> m_start m \<le> m_end m \<and> m_end m \<le> length s
      \<and> (must_advance \<longrightarrow> start < m_end m)
      \<and> cursor_steps s (m_end m) (m_start m = m_end m) ms)"

text \<open>The gap before each span, then the span, and the gap after the last span.\<close>

fun rebuild :: "string \<Rightarrow> nat \<Rightarrow> rmatch list \<Rightarrow> string" where
  "rebuild line last_index [] = slice_from line last_index"
| "rebuild line last_index (m # ms) =
     slice line last_index (m_start m) @ m_group m @ rebuild line (m_end m) ms"


text \<open>Spans in order from \<open>last_index\<close> on: each begins at or after the end of the one before.\<close>

fun spans_ordered :: "nat \<Rightarrow> rmatch list \<Rightarrow> bool" where
  "spans_ordered last_index [] = True"
| "spans_ordered last_index (m # ms) =
     (last_index \<le> m_start m \<and> m_start m \<le> m_end m \<and> spans_ordered (m_end m) ms)"



section \<open>The surroundings of the scenarios\<close>

text \<open>
  A run needs the outcomes of \<^verbatim>\<open>re.compile\<close> and \<^verbatim>\<open>open\<close>. For the scenarios:
  \<^verbatim>\<open>a+\<close> and \<^verbatim>\<open>\d+\<close> compile, \<^verbatim>\<open>(\<close> raises \<^verbatim>\<open>re.error\<close> (the table gives \<open>None\<close> for every
  other expression, and no proof reads it there); \<^verbatim>\<open>a.txt\<close> has two lines, \<^verbatim>\<open>b.txt\<close> has one
  line without a terminator, and no other file exists.
\<close>

definition empty_world :: world where
  "empty_world = \<lparr>stdout = [], json_output_file = [], opened = []\<rparr>"

definition scenario_compile :: "string \<Rightarrow> pattern option" where
  "scenario_compile e =
     (if e = ''a+'' then Some (rx (Plus (Lit CHR ''a'')))
      else if e = CHR 0x5C # ''d+'' then Some (rx (Plus Digit))
      else None)"

definition scenario_open :: "string \<Rightarrow> open_result" where
  "scenario_open file_name =
     (if file_name = ''a.txt'' then Opened [''id7'' @ [newline], ''baaab'' @ [newline]]
      else if file_name = ''b.txt'' then Opened [''caab'']
      else FileNotFoundError)"

definition scenario_env :: env where
  "scenario_env =
     \<lparr>re_compile = scenario_compile, open_file = scenario_open, stdin_readlines = []\<rparr>"

definition default_args :: "string \<Rightarrow> string list \<Rightarrow> args" where
  "default_args e names =
     \<lparr>regular_expression = e, files = Some names, underscore = False, color = False,
      machine = False\<rparr>"

section \<open>The scan of a line\<close>

lemma pattern_okD:
  assumes "pattern_ok p s" "i \<le> length s" "e \<in> set (p s i)"
  shows "i \<le> e \<and> e \<le> length s"
proof -
  from assms(2) have "i \<in> set [0..<Suc (length s)]" by (simp del: upt_Suc)
  with assms(1) have "list_all (\<lambda>e. i \<le> e \<and> e \<le> length s) (p s i)"
    unfolding pattern_ok_def list_all_iff by blast
  with assms(3) show ?thesis unfolding list_all_iff by blast
qed

lemma search_loop_Some:
  "search_loop p s ptr = Some (b, e) \<Longrightarrow> ptr < b \<and> b \<le> length s \<and> e \<in> set (p s b)"
proof (induction p s ptr rule: search_loop.induct)
  case (1 p s ptr)
  show ?case
  proof (cases "ptr < length s")
    case False
    with "1.prems" show ?thesis by simp
  next
    case True
    show ?thesis
    proof (cases "p s (Suc ptr)")
      case Nil
      with True "1.prems" have "search_loop p s (Suc ptr) = Some (b, e)" by simp
      from "1.IH"[OF True Nil this] show ?thesis by simp
    next
      case (Cons x xs)
      with True "1.prems" have "b = Suc ptr" "e = x" by simp_all
      with True Cons show ?thesis by simp
    qed
  qed
qed

lemma sre_search_Some:
  assumes ok: "pattern_ok p s" and le: "start \<le> length s"
    and res: "sre_search p s start ma = Some (b, e)"
  shows "start \<le> b \<and> b \<le> e \<and> e \<le> length s \<and> (ma \<longrightarrow> start < e)"
proof (cases "filter (\<lambda>e. \<not> (ma \<and> e = start)) (p s start)")
  case Nil
  with res have "search_loop p s start = Some (b, e)" by (simp add: sre_search_def)
  from search_loop_Some[OF this] have b: "start < b" "b \<le> length s" "e \<in> set (p s b)" by simp_all
  from pattern_okD[OF ok b(2) b(3)] b(1) show ?thesis by simp
next
  case (Cons x xs)
  with res have be: "b = start" "e = x" by (simp_all add: sre_search_def)
  have "x \<in> set (filter (\<lambda>e. \<not> (ma \<and> e = start)) (p s start))" unfolding Cons by simp
  then have x: "x \<in> set (p s start)" "\<not> (ma \<and> x = start)" by simp_all
  from pattern_okD[OF ok le x(1)] x(2) be show ?thesis by auto
qed

text \<open>
  The scan returns. Each step lowers \<open>2 * (length s - start)\<close>, plus one while
  \<open>must_advance\<close> is not set: a match either ends beyond the cursor or is the one empty match
  allowed at the cursor.
\<close>

lemma scanner_total:
  assumes ok: "pattern_ok p s"
  shows "start \<le> length s \<Longrightarrow>
    \<exists>ms. scanner p s start ma = Some ms \<and> cursor_steps s start ma ms
       \<and> length ms \<le> 2 * (length s - start) + (if ma then 0 else 1)"
proof (induction "2 * (length s - start) + (if ma then 0 else (1::nat))"
        arbitrary: start ma rule: less_induct)
  case less
  show ?case
  proof (cases "sre_search p s start ma")
    case None
    then have "scanner p s start ma = Some []" by (subst scanner.simps) simp
    then show ?thesis by simp
  next
    case (Some be)
    obtain b e where be: "be = (b, e)" by (cases be)
    from sre_search_Some[OF ok less.prems Some[unfolded be]]
    have facts: "start \<le> b" "b \<le> e" "e \<le> length s" "ma \<longrightarrow> start < e" by simp_all
    have dec: "2 * (length s - e) + (if b = e then 0 else (1::nat))
               < 2 * (length s - start) + (if ma then 0 else 1)"
      using facts less.prems by (auto split: if_splits)
    from less.hyps[OF dec facts(3)] obtain ms where
      ms: "scanner p s e (b = e) = Some ms" "cursor_steps s e (b = e) ms"
          "length ms \<le> 2 * (length s - e) + (if b = e then 0 else 1)" by blast
    let ?m = "\<lparr>m_string = s, m_start = b, m_end = e\<rparr>"
    have "scanner p s start ma = Some (?m # ms)"
      by (subst scanner.simps) (simp add: Some be ms(1))
    moreover have "cursor_steps s start ma (?m # ms)" using facts ms(2) by simp
    moreover have "length (?m # ms) \<le> 2 * (length s - start) + (if ma then 0 else 1)"
      using ms(3) dec by simp
    ultimately show ?thesis by blast
  qed
qed

lemma cursor_steps_all:
  "cursor_steps s start ma ms \<Longrightarrow> m \<in> set ms \<Longrightarrow>
     start \<le> m_start m \<and> m_start m \<le> m_end m \<and> m_end m \<le> length s \<and> (ma \<longrightarrow> start < m_end m)"
proof (induction ms arbitrary: start ma)
  case Nil
  then show ?case by simp
next
  case (Cons x xs)
  show ?case
  proof (cases "m = x")
    case True
    with Cons.prems show ?thesis by simp
  next
    case False
    with Cons.prems have "m \<in> set xs" "cursor_steps s (m_end x) (m_start x = m_end x) xs"
      by simp_all
    from Cons.IH[OF this(2) this(1)] Cons.prems(1) show ?thesis by auto
  qed
qed

lemma cursor_steps_sorted:
  "cursor_steps s start ma ms \<Longrightarrow>
     sorted_wrt (\<lambda>m m'. m_end m \<le> m_start m'
        \<and> (m_start m < m_start m' \<or> (m_start m = m_end m \<and> m_end m < m_end m'))) ms"
proof (induction ms arbitrary: start ma)
  case Nil
  then show ?case by simp
next
  case (Cons x xs)
  from Cons.prems have tl: "cursor_steps s (m_end x) (m_start x = m_end x) xs"
    and x: "m_start x \<le> m_end x" by simp_all
  have "\<forall>m'\<in>set xs. m_end x \<le> m_start m'
        \<and> (m_start x < m_start m' \<or> (m_start x = m_end x \<and> m_end x < m_end m'))"
  proof
    fix m' assume "m' \<in> set xs"
    from cursor_steps_all[OF tl this] x show "m_end x \<le> m_start m'
        \<and> (m_start x < m_start m' \<or> (m_start x = m_end x \<and> m_end x < m_end m'))"
      by auto
  qed
  with Cons.IH[OF tl] show ?case by simp
qed

lemma slice_append_drop: "a \<le> b \<Longrightarrow> slice s a b @ drop b s = drop a s"
proof -
  assume "a \<le> b"
  then have "drop b s = drop (b - a) (drop a s)" by simp
  then show ?thesis unfolding slice_def by (metis append_take_drop_id)
qed

lemma cursor_steps_rebuild:
  "cursor_steps s start ma ms \<Longrightarrow> rebuild s start ms = drop start s"
proof (induction ms arbitrary: start ma)
  case Nil
  then show ?case by (simp add: slice_from_def)
next
  case (Cons x xs)
  from Cons.prems have tl: "cursor_steps s (m_end x) (m_start x = m_end x) xs"
    and x: "m_string x = s" "start \<le> m_start x" "m_start x \<le> m_end x" by simp_all
  have "rebuild s start (x # xs)
          = slice s start (m_start x) @ slice s (m_start x) (m_end x) @ drop (m_end x) s"
    using Cons.IH[OF tl] x(1) by (simp add: m_group_def)
  also have "\<dots> = slice s start (m_start x) @ drop (m_start x) s"
    using slice_append_drop[OF x(3)] by simp
  also have "\<dots> = drop start s" using slice_append_drop[OF x(2)] by simp
  finally show ?case .
qed

lemma cursor_steps_ordered: "cursor_steps s start ma ms \<Longrightarrow> spans_ordered start ms"
  by (induction ms arbitrary: start ma) auto

lemma finditer_spans_ordered:
  assumes "pattern_ok p line" "finditer p line = Some ms"
  shows "spans_ordered 0 ms"
proof -
  from scanner_total[OF assms(1), of 0 False] assms(2) have "cursor_steps line 0 False ms"
    unfolding finditer_def by auto
  then show ?thesis by (rule cursor_steps_ordered)
qed

subsection \<open>The patterns of the fragment\<close>

text \<open>Every pattern of the fragment meets the contract, on every string.\<close>

lemma star_ends_bounds:
  assumes f: "\<And>j e. j \<le> n \<Longrightarrow> e \<in> set (f j) \<Longrightarrow> j \<le> e \<and> e \<le> n"
  shows "i \<le> n \<Longrightarrow> e \<in> set (star_ends f k i) \<Longrightarrow> i \<le> e \<and> e \<le> n"
proof (induction k arbitrary: i e)
  case 0
  then show ?case by simp
next
  case (Suc k)
  from Suc.prems(2) consider "e = i"
    | e' where "e' \<in> set (f i)" "i < e'" "e \<in> set (star_ends f k e')"
    | "e \<in> set (f i)"
    by (auto split: if_splits)
  then show ?case
  proof cases
    case 1
    with Suc.prems(1) show ?thesis by simp
  next
    case 2
    from f[OF Suc.prems(1) 2(1)] have "e' \<le> n" by simp
    from Suc.IH[OF this 2(3)] 2(2) show ?thesis by simp
  next
    case 3
    from f[OF Suc.prems(1) 3] show ?thesis .
  qed
qed

lemma ends_bounds:
  "i \<le> length s \<Longrightarrow> e \<in> set (ends r s i) \<Longrightarrow> i \<le> e \<and> e \<le> length s"
proof (induction r arbitrary: i e)
  case (Lit c)
  show ?case
  proof (cases "i < length s \<and> s ! i = c")
    case True
    with Lit.prems(2) have "e = Suc i" by simp
    with True show ?thesis by simp
  next
    case False
    with Lit.prems(2) show ?thesis by simp
  qed
next
  case Digit
  show ?case
  proof (cases "i < length s \<and> s ! i \<in> set ''0123456789''")
    case True
    then have "ends Digit s i = [Suc i]" by (simp only: ends.simps simp_thms if_True)
    with Digit.prems(2) have "e = Suc i" by simp
    with True show ?thesis by simp
  next
    case False
    then have "ends Digit s i = []" by (simp only: ends.simps simp_thms if_False)
    with Digit.prems(2) show ?thesis by simp
  qed
next
  case Eps
  then show ?case by simp
next
  case (Seq r1 r2)
  from Seq.prems(2) obtain m where m: "m \<in> set (ends r1 s i)" "e \<in> set (ends r2 s m)" by auto
  from Seq.IH(1)[OF Seq.prems(1) m(1)] have 1: "i \<le> m" "m \<le> length s" by simp_all
  from Seq.IH(2)[OF 1(2) m(2)] 1 show ?case by simp
next
  case (Alt r1 r2)
  from Alt.prems(2) have "e \<in> set (ends r1 s i) \<or> e \<in> set (ends r2 s i)" by simp
  then show ?case
  proof
    assume "e \<in> set (ends r1 s i)"
    from Alt.IH(1)[OF Alt.prems(1) this] show ?thesis .
  next
    assume "e \<in> set (ends r2 s i)"
    from Alt.IH(2)[OF Alt.prems(1) this] show ?thesis .
  qed
next
  case (Star r)
  have body: "\<And>j e. j \<le> length s \<Longrightarrow> e \<in> set (ends r s j) \<Longrightarrow> j \<le> e \<and> e \<le> length s"
    using Star.IH by blast
  have mem: "e \<in> set (star_ends (\<lambda>j. ends r s j) (Suc (length s - i)) i)"
    using Star.prems(2) by (simp only: ends.simps)
  from star_ends_bounds[OF body Star.prems(1) mem] show ?case .
qed

lemma rx_pattern_ok: "pattern_ok (rx r) s"
proof -
  have "\<forall>i\<in>set [0..<Suc (length s)]. \<forall>e\<in>set (rx r s i). i \<le> e \<and> e \<le> length s"
  proof (intro ballI)
    fix i e
    assume "i \<in> set [0..<Suc (length s)]" and "e \<in> set (rx r s i)"
    then have "i \<le> length s" and "e \<in> set (ends r s i)"
      by (simp_all add: rx_def del: upt_Suc)
    then show "i \<le> e \<and> e \<le> length s" by (rule ends_bounds)
  qed
  then show ?thesis unfolding pattern_ok_def list_all_iff .
qed

text \<open>
  The example of the library's documentation: \<^verbatim>\<open>x*\<close> on \<^verbatim>\<open>abxd\<close> matches the empty string
  at 0 and at 1, \<^verbatim>\<open>x\<close> at 2, and the empty string at 3, next to the match before it, and at 4.
\<close>

lemma finditer_documented_example:
  "finditer (rx (Star (Lit CHR ''x''))) ''abxd''
     = Some [\<lparr>m_string = ''abxd'', m_start = 0, m_end = 0\<rparr>,
             \<lparr>m_string = ''abxd'', m_start = 1, m_end = 1\<rparr>,
             \<lparr>m_string = ''abxd'', m_start = 2, m_end = 3\<rparr>,
             \<lparr>m_string = ''abxd'', m_start = 3, m_end = 3\<rparr>,
             \<lparr>m_string = ''abxd'', m_start = 4, m_end = 4\<rparr>]"
  by code_simp

text \<open>
  A star over a body that can match the empty string: \<^verbatim>\<open>(?:|a)*\<close> on \<^verbatim>\<open>a\<close> matches the
  empty string at 0 first, then \<^verbatim>\<open>a\<close>, then the empty string at 1.
\<close>

lemma finditer_nullable_star:
  "finditer (rx (Star (Alt Eps (Lit CHR ''a'')))) ''a''
     = Some [\<lparr>m_string = ''a'', m_start = 0, m_end = 0\<rparr>,
             \<lparr>m_string = ''a'', m_start = 0, m_end = 1\<rparr>,
             \<lparr>m_string = ''a'', m_start = 1, m_end = 1\<rparr>]"
  by code_simp

subsection \<open>What \<^verbatim>\<open>finditer\<close> returns\<close>

text \<open>
  C1, as amended. For a pattern that meets its contract on the line, \<^verbatim>\<open>finditer\<close> returns a
  sequence of matches in which every span satisfies \<open>start \<le> end \<le> length line\<close>, every
  span begins at or after the end of each earlier one, the start offsets never decrease and
  two matches share a start offset only when the earlier one is empty and the later one ends
  beyond it; the gaps and the spans, in order, with the trailing gap, give back the line.
\<close>

theorem finditer_spans:
  assumes "pattern_ok p line"
  shows "\<exists>ms. finditer p line = Some ms
     \<and> (\<forall>m\<in>set ms. m_start m \<le> m_end m \<and> m_end m \<le> length line)
     \<and> sorted_wrt (\<lambda>m m'. m_end m \<le> m_start m'
          \<and> (m_start m < m_start m' \<or> (m_start m = m_end m \<and> m_end m < m_end m'))) ms
     \<and> rebuild line 0 ms = line"
proof -
  from scanner_total[OF assms, of 0 False] obtain ms where
    ms: "scanner p line 0 False = Some ms" "cursor_steps line 0 False ms" by auto
  have "\<forall>m\<in>set ms. m_start m \<le> m_end m \<and> m_end m \<le> length line"
    using cursor_steps_all[OF ms(2)] by blast
  moreover note cursor_steps_sorted[OF ms(2)]
  moreover have "rebuild line 0 ms = line" using cursor_steps_rebuild[OF ms(2)] by simp
  ultimately show ?thesis using ms(1) unfolding finditer_def by blast
qed

theorem finditer_spans_witness:
  "pattern_ok (rx (Plus (Lit CHR ''a''))) ''baaab''
   \<and> (\<exists>ms. finditer (rx (Plus (Lit CHR ''a''))) ''baaab'' = Some ms
     \<and> (\<forall>m\<in>set ms. m_start m \<le> m_end m \<and> m_end m \<le> length ''baaab'')
     \<and> sorted_wrt (\<lambda>m m'. m_end m \<le> m_start m'
          \<and> (m_start m < m_start m' \<or> (m_start m = m_end m \<and> m_end m < m_end m'))) ms
     \<and> rebuild ''baaab'' 0 ms = ''baaab'')"
proof -
  have ok: "pattern_ok (rx (Plus (Lit CHR ''a''))) ''baaab''" by code_simp
  from finditer_spans[OF ok] ok show ?thesis by blast
qed

text \<open>
  The claim as written fails: the pattern \<^verbatim>\<open>|a\<close> on the line \<^verbatim>\<open>a\<close> gives the spans
  \<open>(0, 0)\<close>, \<open>(0, 1)\<close> and \<open>(1, 1)\<close>, whose start offsets are not strictly increasing.
\<close>

theorem finditer_starts_counterexample:
  "finditer (rx (Alt Eps (Lit CHR ''a''))) ''a''
     = Some [\<lparr>m_string = ''a'', m_start = 0, m_end = 0\<rparr>,
             \<lparr>m_string = ''a'', m_start = 0, m_end = 1\<rparr>,
             \<lparr>m_string = ''a'', m_start = 1, m_end = 1\<rparr>]
   \<and> \<not> sorted_wrt (<) (map m_start
           [\<lparr>m_string = ''a'', m_start = 0, m_end = 0\<rparr>,
            \<lparr>m_string = ''a'', m_start = 0, m_end = 1\<rparr>,
            \<lparr>m_string = ''a'', m_start = 1, m_end = 1\<rparr>])"
  by code_simp

text \<open>
  C5, as amended. For a pattern that meets its contract on the line, the scan returns, with
  at most \<open>2 * length line + 1\<close> matches. Each match leaves the cursor at its end offset; an
  empty match does not move the cursor further, it forbids the next match to be empty at
  that offset, so that the match after an empty match ends beyond it.
\<close>

theorem finditer_terminates:
  assumes "pattern_ok p line"
  shows "\<exists>ms. finditer p line = Some ms \<and> length ms \<le> 2 * length line + 1
           \<and> cursor_steps line 0 False ms"
  using scanner_total[OF assms, of 0 False] unfolding finditer_def by auto

theorem finditer_terminates_witness:
  "pattern_ok (rx (Star (Lit CHR ''x''))) ''abxd''
   \<and> (\<exists>ms. finditer (rx (Star (Lit CHR ''x''))) ''abxd'' = Some ms
          \<and> length ms \<le> 2 * length ''abxd'' + 1 \<and> cursor_steps ''abxd'' 0 False ms)"
proof -
  have ok: "pattern_ok (rx (Star (Lit CHR ''x''))) ''abxd''" by code_simp
  from finditer_terminates[OF ok] ok show ?thesis by blast
qed

text \<open>
  The claim as written fails: with the pattern \<^verbatim>\<open>|b\<close> on the line \<^verbatim>\<open>ab\<close>, the empty match
  at offset 1 is followed by a match that starts at offset 1, not one position further.
\<close>

theorem finditer_cursor_counterexample:
  "finditer (rx (Alt Eps (Lit CHR ''b''))) ''ab''
     = Some [\<lparr>m_string = ''ab'', m_start = 0, m_end = 0\<rparr>,
             \<lparr>m_string = ''ab'', m_start = 1, m_end = 1\<rparr>,
             \<lparr>m_string = ''ab'', m_start = 1, m_end = 2\<rparr>,
             \<lparr>m_string = ''ab'', m_start = 2, m_end = 2\<rparr>]
   \<and> \<not> (Suc (m_end \<lparr>m_string = ''ab'', m_start = 1, m_end = 1\<rparr>)
          \<le> m_start \<lparr>m_string = ''ab'', m_start = 1, m_end = 2\<rparr>)"
  by code_simp

section \<open>The default and the machine formatter\<close>

lemma DefaultFormatter_stdout:
  "DefaultFormatter_format file_name line line_no matches w =
     w\<lparr>stdout := stdout w @ concat (map (\<lambda>m. ''file name: '' @ file_name @ '', line: ''
          @ str_nat line_no @ '', matched_text: '' @ m_group m @ [newline]) matches)\<rparr>"
  by (induction matches arbitrary: w) (simp_all add: print_def)

lemma machine_loop_map:
  "machine_loop file_name line_no matches data =
     data @ map (\<lambda>m. file_name @ '':'' @ str_nat line_no @ '':'' @ str_nat (m_start m)
                  @ '':'' @ m_group m) matches"
  by (induction matches arbitrary: data) simp_all

lemma finditer_a_plus:
  "finditer (rx (Plus (Lit CHR ''a''))) ''baaab''
     = Some [\<lparr>m_string = ''baaab'', m_start = 1, m_end = 4\<rparr>]"
  by code_simp

lemma finditer_digits:
  "finditer (rx (Plus Digit)) ''id7'' = Some [\<lparr>m_string = ''id7'', m_start = 2, m_end = 3\<rparr>]"
  by code_simp

lemma str_nat_scenarios:
  "str_nat 1 = ''1''" "str_nat (Suc 0) = ''1''" "str_nat 2 = ''2''" "str_nat 5 = ''5''"
  by code_simp+

lemma json_dump_scenario:
  "json_dump [''a.txt:5:2:7''] = ''['' @ [newline] @ ''    '' @ [CHR 0x22] @ ''a.txt:5:2:7''
                 @ [CHR 0x22] @ [newline] @ '']''"
  by code_simp

text \<open>
  C8. The default formatter prints one line for each match, of the form
  \<^verbatim>\<open>file name: <source>, line: <n>, matched_text: <text>\<close>, writes nothing else and does
  nothing for an empty match sequence; for the pattern \<^verbatim>\<open>a+\<close> on the line \<^verbatim>\<open>baaab\<close>, line 1
  of the source \<^verbatim>\<open>f\<close>, it prints \<^verbatim>\<open>file name: f, line: 1, matched_text: aaa\<close>.
\<close>

theorem DefaultFormatter_one_line_per_match:
  "stdout (DefaultFormatter_format file_name line line_no matches w) =
     stdout w @ concat (map (\<lambda>m. ''file name: '' @ file_name @ '', line: '' @ str_nat line_no
                                  @ '', matched_text: '' @ m_group m @ [newline]) matches)
   \<and> json_output_file (DefaultFormatter_format file_name line line_no matches w)
       = json_output_file w
   \<and> DefaultFormatter_format file_name line line_no [] w = w
   \<and> map_option (\<lambda>ms. stdout (DefaultFormatter_format ''f'' ''baaab'' 1 ms w))
        (finditer (rx (Plus (Lit CHR ''a''))) ''baaab'')
      = Some (stdout w @ ''file name: f, line: 1, matched_text: aaa'' @ [newline])"
  by (simp add: DefaultFormatter_stdout finditer_a_plus m_group_def slice_def str_nat_scenarios)

text \<open>
  C6. The machine formatter builds, for each match, the record string
  \<^verbatim>\<open>file_name:line_no:start:group\<close>, and appends the JSON text of the list of them to the
  output file; for the pattern \<^verbatim>\<open>\d+\<close> on the line \<^verbatim>\<open>id7\<close>, line 5 of the source \<^verbatim>\<open>a.txt\<close>,
  the one record string is \<^verbatim>\<open>a.txt:5:2:7\<close>.
\<close>

theorem MachineFormatter_record_strings:
  "machine_loop file_name line_no matches [] =
     map (\<lambda>m. file_name @ '':'' @ str_nat line_no @ '':'' @ str_nat (m_start m)
               @ '':'' @ m_group m) matches
   \<and> json_output_file (MachineFormatter_format file_name line line_no matches w) =
       json_output_file w @ json_dump (machine_loop file_name line_no matches [])
   \<and> map_option (\<lambda>ms. machine_loop ''a.txt'' 5 ms []) (finditer (rx (Plus Digit)) ''id7'')
       = Some [''a.txt:5:2:7'']
   \<and> map_option (\<lambda>ms. json_output_file (MachineFormatter_format ''a.txt'' ''id7'' 5 ms w))
        (finditer (rx (Plus Digit)) ''id7'')
       = Some (json_output_file w @ ''['' @ [newline] @ ''    '' @ [CHR 0x22] @ ''a.txt:5:2:7''
                 @ [CHR 0x22] @ [newline] @ '']'')"
  by (simp add: machine_loop_map MachineFormatter_format_def finditer_digits m_group_def slice_def
      str_nat_scenarios json_dump_scenario)

lemma machine_mode_empty_line:
  assumes "\<not> underscore a" "\<not> color a" "machine a"
  shows "output_formatted_data a file_name line line_no [] w
           = w\<lparr>json_output_file := json_output_file w @ ''[]''\<rparr>"
  using assms by (simp add: output_formatted_data_def MachineFormatter_format_def json_dump_def)

text \<open>
  C3, as amended. For an empty match sequence the machine formatter builds no record string
  and prints nothing, and it appends the text \<^verbatim>\<open>[]\<close>, the JSON of the empty list, to the
  output file: the file grows at every formatted line, with or without matches.
\<close>

theorem MachineFormatter_appends_every_line:
  "machine_loop file_name line_no [] [] = []
   \<and> MachineFormatter_format file_name line line_no [] w
       = w\<lparr>json_output_file := json_output_file w @ ''[]''\<rparr>
   \<and> (\<exists>c cs. json_output_file (MachineFormatter_format file_name line line_no matches w)
                = json_output_file w @ c # cs)"
  by (simp add: MachineFormatter_format_def json_dump_def)

text \<open>
  The claim as written fails: formatting the line \<^verbatim>\<open>abc\<close> with no match turns an empty
  output file into one that holds \<^verbatim>\<open>[]\<close>.
\<close>

theorem MachineFormatter_empty_counterexample:
  "json_output_file (MachineFormatter_format ''f'' ''abc'' 1 [] empty_world) = ''[]''
   \<and> json_output_file (MachineFormatter_format ''f'' ''abc'' 1 [] empty_world)
       \<noteq> json_output_file empty_world"
  by (simp add: MachineFormatter_format_def json_dump_def empty_world_def)

section \<open>The underscore and the colour formatter\<close>

text \<open>
  C10. The underscore formatter and the colour formatter do not read \<^verbatim>\<open>file_name\<close> and
  \<^verbatim>\<open>line_no\<close>: with the same line and the same matches they leave the same output, whatever
  the source and the line number.
\<close>

theorem formatters_ignore_source_and_line_number:
  "UnderscoreFormatter_format file_name line line_no matches w
     = UnderscoreFormatter_format file_name' line line_no' matches w
   \<and> ColorFormatter_format file_name line line_no matches w
     = ColorFormatter_format file_name' line line_no' matches w"
  by (simp add: UnderscoreFormatter_format_def ColorFormatter_format_def)

lemma spans_ordered_all:
  "spans_ordered li ms \<Longrightarrow> m \<in> set ms \<Longrightarrow> li \<le> m_start m \<and> m_start m \<le> m_end m"
proof (induction ms arbitrary: li)
  case Nil
  then show ?case by simp
next
  case (Cons x xs)
  show ?case
  proof (cases "m = x")
    case True
    with Cons.prems show ?thesis by simp
  next
    case False
    with Cons.prems have "m \<in> set xs" "spans_ordered (m_end x) xs" by simp_all
    from Cons.IH[OF this(2) this(1)] Cons.prems(1) show ?thesis by simp
  qed
qed

lemma underscore_loop_fst:
  "fst (underscore_loop ms li out) = (if ms = [] then li else m_end (last ms))"
  by (induction ms arbitrary: li out) simp_all

lemma underscore_loop_length:
  "spans_ordered li ms \<Longrightarrow> length out = li \<Longrightarrow>
     length (snd (underscore_loop ms li out)) = fst (underscore_loop ms li out)"
  by (induction ms arbitrary: li out) simp_all

lemma underscore_loop_nth:
  "spans_ordered li ms \<Longrightarrow> length out = li \<Longrightarrow> i < length (snd (underscore_loop ms li out)) \<Longrightarrow>
     snd (underscore_loop ms li out) ! i =
       (if i < li then out ! i
        else if \<exists>m\<in>set ms. m_start m \<le> i \<and> i < m_end m then CHR ''^'' else CHR '' '')"
proof (induction ms arbitrary: li out)
  case Nil
  then show ?case by simp
next
  case (Cons x xs)
  let ?out2 = "out @ replicate (m_start x - li) CHR '' '' @ replicate (m_end x - m_start x) CHR ''^''"
  from Cons.prems have ord: "li \<le> m_start x" "m_start x \<le> m_end x" "spans_ordered (m_end x) xs"
    by simp_all
  have len2: "length ?out2 = m_end x" using ord Cons.prems(2) by simp
  have i: "i < length (snd (underscore_loop xs (m_end x) ?out2))" using Cons.prems(3) by simp
  from Cons.IH[OF ord(3) len2 i]
  have step: "snd (underscore_loop (x # xs) li out) ! i =
       (if i < m_end x then ?out2 ! i
        else if \<exists>m\<in>set xs. m_start m \<le> i \<and> i < m_end m then CHR ''^'' else CHR '' '')"
    by simp
  show ?case
  proof (cases "i < m_end x")
    case False
    then have "(\<exists>m\<in>set (x # xs). m_start m \<le> i \<and> i < m_end m)
               = (\<exists>m\<in>set xs. m_start m \<le> i \<and> i < m_end m)" by auto
    moreover from False ord have "\<not> i < li" by simp
    ultimately show ?thesis using step False by simp
  next
    case True
    have later: "\<not> (\<exists>m\<in>set xs. m_start m \<le> i \<and> i < m_end m)"
      using spans_ordered_all[OF ord(3)] True by fastforce
    have "?out2 ! i = (if i < li then out ! i else if m_start x \<le> i then CHR ''^'' else CHR '' '')"
      using True ord Cons.prems(2) by (auto simp: nth_append)
    with step True later show ?thesis by auto
  qed
qed

text \<open>
  C4, as amended. For spans in order, the underscore formatter prints the line and then a
  second line that has a caret at every offset inside a span and a space at every offset of
  a gap before a span; it renders nothing for the gap after the last span, so the second line
  is as long as the end offset of the last match, and empty for a line without matches.
\<close>

theorem UnderscoreFormatter_caret_line:
  assumes "spans_ordered 0 matches"
  shows "stdout (UnderscoreFormatter_format file_name line line_no matches w)
           = stdout w @ line @ [newline] @ snd (underscore_loop matches 0 []) @ [newline]
     \<and> length (snd (underscore_loop matches 0 []))
           = (if matches = [] then 0 else m_end (last matches))
     \<and> (\<forall>i<length (snd (underscore_loop matches 0 [])).
           snd (underscore_loop matches 0 []) ! i
             = (if \<exists>m\<in>set matches. m_start m \<le> i \<and> i < m_end m then CHR ''^'' else CHR '' ''))"
proof -
  have "length (snd (underscore_loop matches 0 [])) = (if matches = [] then 0 else m_end (last matches))"
    using underscore_loop_length[OF assms, of "[]"] underscore_loop_fst[of matches 0 "[]"] by simp
  moreover have "\<forall>i<length (snd (underscore_loop matches 0 [])).
           snd (underscore_loop matches 0 []) ! i
             = (if \<exists>m\<in>set matches. m_start m \<le> i \<and> i < m_end m then CHR ''^'' else CHR '' '')"
    using underscore_loop_nth[OF assms, of "[]"] by simp
  ultimately show ?thesis by (simp add: UnderscoreFormatter_format_def print_def)
qed

theorem UnderscoreFormatter_caret_line_witness:
  "spans_ordered 0 [\<lparr>m_string = ''baaab'', m_start = 1, m_end = 4\<rparr>]
   \<and> stdout (UnderscoreFormatter_format ''f'' ''baaab'' 1
        [\<lparr>m_string = ''baaab'', m_start = 1, m_end = 4\<rparr>] empty_world)
       = ''baaab'' @ [newline] @ '' ^^^'' @ [newline]"
proof -
  have h: "spans_ordered 0 [\<lparr>m_string = ''baaab'', m_start = 1, m_end = 4\<rparr>]" by simp
  have "snd (underscore_loop [\<lparr>m_string = ''baaab'', m_start = 1, m_end = 4\<rparr>] 0 []) = '' ^^^''"
    by code_simp
  with UnderscoreFormatter_caret_line[OF h, of "''f''" "''baaab''" 1 empty_world] h
  show ?thesis by (simp add: empty_world_def)
qed

text \<open>
  The claim as written fails: for the line \<^verbatim>\<open>abc\<close> without matches the second line is
  empty, not three spaces.
\<close>

theorem UnderscoreFormatter_no_trailing_gap_counterexample:
  "stdout (UnderscoreFormatter_format ''f'' ''abc'' 1 [] empty_world) = ''abc'' @ [newline] @ [newline]
   \<and> stdout (UnderscoreFormatter_format ''f'' ''abc'' 1 [] empty_world)
       \<noteq> ''abc'' @ [newline] @ ''   '' @ [newline]"
  by (simp add: UnderscoreFormatter_format_def print_def empty_world_def)

















section \<open>The exits of a run\<close>

lemma output_formatted_data_opened:
  "opened (output_formatted_data a file_name line line_no matches w) = opened w"
  by (simp add: output_formatted_data_def UnderscoreFormatter_format_def ColorFormatter_format_def
      MachineFormatter_format_def DefaultFormatter_stdout print_def print_end_def Let_def)

lemma search_matches_from_opened:
  "search_matches_from p a lns file_name line_no w = Some w' \<Longrightarrow> opened w' = opened w"
proof (induction lns arbitrary: line_no w)
  case Nil
  then show ?case by simp
next
  case (Cons raw rest)
  from Cons.prems obtain ms where
    ms: "finditer p (filter (\<lambda>c. c \<noteq> newline) raw) = Some ms"
    and rest: "search_matches_from p a rest file_name (Suc line_no)
        (output_formatted_data a file_name (filter (\<lambda>c. c \<noteq> newline) raw) line_no ms w) = Some w'"
    by (auto simp: Let_def split: option.splits)
  from Cons.IH[OF rest] show ?case by (simp add: output_formatted_data_opened)
qed

lemma get_content_files_append:
  "get_content_files E p a pre w = Some (Inr w') \<Longrightarrow>
     get_content_files E p a (pre @ rest) w = get_content_files E p a rest w'
     \<and> opened w' = opened w @ pre"
proof (induction pre arbitrary: w)
  case Nil
  then show ?case by simp
next
  case (Cons f pre)
  from Cons.prems obtain lns w1 where
    f: "open_file E f = Opened lns"
    and w1: "search_matches p a lns f (w\<lparr>opened := opened w @ [f]\<rparr>) = Some w1"
    and pre: "get_content_files E p a pre w1 = Some (Inr w')"
    by (auto split: open_result.splits option.splits)
  from w1 have "opened w1 = opened w @ [f]"
    unfolding search_matches_def by (auto dest: search_matches_from_opened)
  with Cons.IH[OF pre] f w1 show ?case by simp
qed

text \<open>
  C2, as amended. When \<^verbatim>\<open>re.compile\<close> raises \<^verbatim>\<open>re.error\<close>, the run prints
  \<^verbatim>\<open>Invalid regular expression\<close> and ends through \<^verbatim>\<open>exit()\<close>, which is called without a
  status: no source is opened, nothing is written to the output file, and the exit status of
  the process is 0.
\<close>

theorem invalid_pattern_exits:
  assumes "re_compile E (regular_expression a) = None"
  shows "main E a w = Some (Inl (SystemExit None, print ''Invalid regular expression'' w))
     \<and> exit_status (Inl (SystemExit None, print ''Invalid regular expression'' w)) = 0
     \<and> stdout (print ''Invalid regular expression'' w)
         = stdout w @ ''Invalid regular expression'' @ [newline]
     \<and> opened (print ''Invalid regular expression'' w) = opened w
     \<and> json_output_file (print ''Invalid regular expression'' w) = json_output_file w"
  using assms by (simp add: main_def RegularExpressionFinder_init_def print_def)

theorem invalid_pattern_exits_witness:
  "re_compile scenario_env (regular_expression (default_args ''('' [''a.txt''])) = None
   \<and> main scenario_env (default_args ''('' [''a.txt'']) empty_world
       = Some (Inl (SystemExit None, print ''Invalid regular expression'' empty_world))
   \<and> opened (print ''Invalid regular expression'' empty_world) = []"
proof -
  have h: "re_compile scenario_env (regular_expression (default_args ''('' [''a.txt''])) = None"
    by (simp add: scenario_env_def scenario_compile_def default_args_def)
  from invalid_pattern_exits[OF h, of empty_world] h show ?thesis
    by (simp add: empty_world_def)
qed

text \<open>
  The claim as written fails: with the expression \<^verbatim>\<open>(\<close> the exit status is 0, not a
  non-zero one.
\<close>

theorem invalid_pattern_status_counterexample:
  "map_option exit_status (main scenario_env (default_args ''('' [''a.txt'']) empty_world) = Some 0"
  by (simp add: main_def RegularExpressionFinder_init_def scenario_env_def scenario_compile_def
      default_args_def)

text \<open>
  C7, as amended. When a named file does not exist and the files listed before it were
  processed, the run prints \<^verbatim>\<open>File not found error: <name>\<close> and ends at once through
  \<^verbatim>\<open>exit()\<close>, which is called without a status: the files listed after the missing one are
  neither opened nor formatted, and the exit status of the process is 0.
\<close>

theorem missing_file_exits:
  assumes "re_compile E (regular_expression a) = Some p"
    and "files a = Some (pre @ file_name # post)"
    and "get_content_files E p a pre w = Some (Inr w')"
    and "open_file E file_name = FileNotFoundError"
  shows "main E a w
           = Some (Inl (SystemExit None, print (''File not found error: '' @ file_name) w'))
     \<and> exit_status (Inl (SystemExit None, print (''File not found error: '' @ file_name) w')) = 0
     \<and> opened (print (''File not found error: '' @ file_name) w') = opened w @ pre"
proof -
  from get_content_files_append[OF assms(3), of "file_name # post"] assms(4)
  have "get_content_files E p a (pre @ file_name # post) w
          = Some (Inl (SystemExit None, print (''File not found error: '' @ file_name) w'))"
    and "opened w' = opened w @ pre" by simp_all
  with assms(1,2) show ?thesis
    by (simp add: main_def RegularExpressionFinder_init_def get_content_def print_def)
qed

lemma scenario_first_file:
  "get_content_files scenario_env (rx (Plus (Lit CHR ''a''))) (default_args ''a+'' [''a.txt'', ''nofile.txt'', ''b.txt'']) [''a.txt''] empty_world
     = Some (Inr \<lparr>stdout = ''file name: a.txt, line: 2, matched_text: aaa'' @ [newline],
                   json_output_file = [], opened = [''a.txt'']\<rparr>)"
  by code_simp

theorem missing_file_exits_witness:
  "main scenario_env (default_args ''a+'' [''a.txt'', ''nofile.txt'', ''b.txt'']) empty_world
     = Some (Inl (SystemExit None,
         \<lparr>stdout = ''file name: a.txt, line: 2, matched_text: aaa'' @ [newline]
                     @ ''File not found error: nofile.txt'' @ [newline],
          json_output_file = [], opened = [''a.txt'']\<rparr>))"
proof -
  let ?a = "default_args ''a+'' [''a.txt'', ''nofile.txt'', ''b.txt'']"
  have 1: "re_compile scenario_env (regular_expression ?a) = Some (rx (Plus (Lit CHR ''a'')))"
    by (simp add: scenario_env_def scenario_compile_def default_args_def)
  have 2: "files ?a = Some ([''a.txt''] @ ''nofile.txt'' # [''b.txt''])"
    by (simp add: default_args_def)
  have 4: "open_file scenario_env ''nofile.txt'' = FileNotFoundError"
    by (simp add: scenario_env_def scenario_open_def)
  from missing_file_exits[OF 1 2 scenario_first_file 4] show ?thesis
    by (simp add: print_def)
qed

text \<open>
  The claim as written fails: with \<^verbatim>\<open>nofile.txt\<close> first in the list the exit status is 0.
\<close>

theorem missing_file_status_counterexample:
  "map_option exit_status
     (main scenario_env (default_args ''a+'' [''nofile.txt'', ''b.txt'']) empty_world) = Some 0"
  by (simp add: main_def RegularExpressionFinder_init_def get_content_def scenario_env_def
      scenario_compile_def scenario_open_def default_args_def)

end
